theory Spec2Isabelle
  imports Complex_Main
begin

section \<open>Photomosaic: the matching engine of mosaic.py\<close>

text \<open>
  The program cuts a target picture into square cells and replaces each cell by the
  closest tile of a directory of pictures. Python integers are \<open>int\<close>, tuples of channel
  values are lists, exceptions are values of \<open>exn\<close>, and the module-global list
  \<open>cached_avgs\<close>, the standard output and the files touched are fields of an explicit
  state that every function returns, also when it raises.
\<close>

subsection \<open>Exceptions and state\<close>

datatype exn =
    SystemExit
  | ValueError string
  | IndexError
  | ZeroDivisionError
  | OSError string

type_synonym pixel = "int list"

record image =
  width :: int
  height :: int
  mode :: string
  data :: "pixel list"

datatype event =
    Opened string
  | Listed string
  | Saved string image

record pystate =
  cached_avgs :: "pixel list"
  stdout :: "string list"
  trace :: "event list"

text \<open>The state of a fresh process: line 10 of the module binds \<open>cached_avgs = []\<close>.\<close>

definition init_state :: pystate where
  "init_state = \<lparr>cached_avgs = [], stdout = [], trace = []\<rparr>"

definition print :: "string \<Rightarrow> pystate \<Rightarrow> pystate" where
  "print line s = s\<lparr>stdout := stdout s @ [line]\<rparr>"

definition log_event :: "event \<Rightarrow> pystate \<Rightarrow> pystate" where
  "log_event e s = s\<lparr>trace := trace s @ [e]\<rparr>"

subsection \<open>The imaging library\<close>

text \<open>
  Pillow is not part of the repository. Its geometry (the size of what \<open>resize\<close>,
  \<open>crop\<close> and \<open>new\<close> return, the region \<open>paste\<close> writes, the exceptions for an empty
  size and for pasting \<open>None\<close>) is written out below; the pixel values its filters
  compute are parameters: \<open>antialias lib im box sz x y\<close> is the pixel at \<open>(x, y)\<close> of
  \<open>im.resize(sz, Image.ANTIALIAS, box)\<close>, \<open>converted lib m im\<close> the pixels of
  \<open>im.convert(m)\<close>, and \<open>black lib m\<close> the zero pixel of mode \<open>m\<close>.
  An image keeps its pixels row by row, \<open>width * height\<close> of them.
\<close>

type_synonym box = "int \<times> int \<times> int \<times> int"

record pil =
  antialias :: "image \<Rightarrow> box \<Rightarrow> int \<times> int \<Rightarrow> int \<Rightarrow> int \<Rightarrow> pixel"
  converted :: "string \<Rightarrow> image \<Rightarrow> pixel list"
  black :: "string \<Rightarrow> pixel"

definition raster :: "int \<Rightarrow> int \<Rightarrow> (int \<Rightarrow> int \<Rightarrow> pixel) \<Rightarrow> pixel list" where
  "raster w h f = concat (map (\<lambda>y. map (\<lambda>x. f x y) [0..w - 1]) [0..h - 1])"

definition inside :: "image \<Rightarrow> int \<Rightarrow> int \<Rightarrow> bool" where
  "inside im x y \<longleftrightarrow> 0 \<le> x \<and> x < width im \<and> 0 \<le> y \<and> y < height im"

definition pixel_at :: "pil \<Rightarrow> image \<Rightarrow> int \<Rightarrow> int \<Rightarrow> pixel" where
  "pixel_at lib im x y =
     (let i = nat (y * width im + x)
      in if inside im x y \<and> i < length (data im) then data im ! i else black lib (mode im))"

definition resize :: "pil \<Rightarrow> image \<Rightarrow> int \<times> int \<Rightarrow> box option \<Rightarrow> exn + image" where
  "resize lib im sz bx =
     (if fst sz \<le> 0 \<or> snd sz \<le> 0 then Inl (ValueError ''height and width must be > 0'')
      else Inr \<lparr>width = fst sz, height = snd sz, mode = mode im,
                data = raster (fst sz) (snd sz)
                  (antialias lib im
                    (case bx of None \<Rightarrow> (0, 0, width im, height im) | Some b \<Rightarrow> b) sz)\<rparr>)"

definition crop :: "pil \<Rightarrow> image \<Rightarrow> box \<Rightarrow> exn + image" where
  "crop lib im bx =
     (case bx of (l, u, r, b) \<Rightarrow>
        if r < l then Inl (ValueError ''Coordinate right is less than left'')
        else if b < u then Inl (ValueError ''Coordinate lower is less than upper'')
        else Inr \<lparr>width = r - l, height = b - u, mode = mode im,
                  data = raster (r - l) (b - u) (\<lambda>x y. pixel_at lib im (l + x) (u + y))\<rparr>)"

definition getpixel :: "image \<Rightarrow> int \<times> int \<Rightarrow> exn + pixel" where
  "getpixel im xy =
     (let i = nat (snd xy * width im + fst xy)
      in if inside im (fst xy) (snd xy) \<and> i < length (data im) then Inr (data im ! i)
         else Inl IndexError)"

definition convert :: "pil \<Rightarrow> image \<Rightarrow> string \<Rightarrow> image" where
  "convert lib im m = im\<lparr>mode := m, data := converted lib m im\<rparr>"

definition new_image :: "pil \<Rightarrow> string \<Rightarrow> int \<times> int \<Rightarrow> exn + image" where
  "new_image lib m sz =
     (if fst sz < 0 \<or> snd sz < 0 then Inl (ValueError ''Width and height must be >= 0'')
      else Inr \<lparr>width = fst sz, height = snd sz, mode = m,
                data = raster (fst sz) (snd sz) (\<lambda>x y. black lib m)\<rparr>)"

text \<open>
  \<open>output.paste(tile, (x, y))\<close>: with a two-item box the region's size is the tile's, and a
  \<open>tile\<close> that is no image (here \<open>None\<close>) raises ValueError.
\<close>

definition paste :: "pil \<Rightarrow> image \<Rightarrow> image option \<Rightarrow> int \<times> int \<Rightarrow> exn + image" where
  "paste lib out tile xy =
     (case tile of
        None \<Rightarrow> Inl (ValueError ''cannot determine region size; use 4-item box'')
      | Some t \<Rightarrow>
          Inr (out\<lparr>data := raster (width out) (height out)
                 (\<lambda>x y. if inside t (x - fst xy) (y - snd xy)
                        then pixel_at lib t (x - fst xy) (y - snd xy)
                        else pixel_at lib out x y)\<rparr>))"

subsection \<open>Arrays and the dissimilarity\<close>

text \<open>
  \<open>np.asarray(x, dtype=float)\<close> of a channel tuple has shape \<open>(channels,)\<close>, of an image
  \<open>(height, width, channels)\<close>; the values become floats, here reals (every channel
  value and every sum of squares of the program is an integer that a double holds
  exactly). \<open>np.subtract\<close> raises ValueError on shapes that do not broadcast; the program
  only compares operands of one shape, so the model raises on every shape mismatch.
\<close>

record ndarray =
  shape :: "nat list"
  vals :: "real list"

definition asarray_pixel :: "pixel \<Rightarrow> ndarray" where
  "asarray_pixel p = \<lparr>shape = [length p], vals = map real_of_int p\<rparr>"

definition asarray_image :: "image \<Rightarrow> ndarray" where
  "asarray_image im =
     \<lparr>shape = [nat (height im), nat (width im),
               (case data im of [] \<Rightarrow> 0 | p # _ \<Rightarrow> length p)],
      vals = map real_of_int (concat (data im))\<rparr>"

definition error :: "ndarray \<Rightarrow> ndarray \<Rightarrow> exn + real" where
  "error x y =
     (if shape x = shape y \<and> length (vals x) = length (vals y)
      then Inr (sum_list (map (\<lambda>(a, b). (a - b)\<^sup>2) (zip (vals x) (vals y))))
      else Inl (ValueError ''operands could not be broadcast together''))"

subsection \<open>Average colour\<close>

definition avg_rgb :: "pil \<Rightarrow> image \<Rightarrow> exn + pixel" where
  "avg_rgb lib im =
     (case resize lib im (1, 1) None of
        Inl e \<Rightarrow> Inl e
      | Inr img \<Rightarrow> getpixel img (0, 0))"

subsection \<open>The matcher\<close>

text \<open>
  \<open>min_err\<close> starts as \<open>float('inf')\<close>, here \<open>None\<close>; \<open>improves err min_err\<close> is the test
  \<open>err < min_err\<close>. The pair \<open>(min_err, best_match)\<close> is the loop state.
\<close>

type_synonym best = "real option \<times> image option"

definition improves :: "real \<Rightarrow> real option \<Rightarrow> bool" where
  "improves err min_err = (case min_err of None \<Rightarrow> True | Some m \<Rightarrow> err < m)"

text \<open>Lines 93 to 99: the first scan, which appends every tile's average to the cache.\<close>

fun scan_tiles :: "pil \<Rightarrow> pixel \<Rightarrow> image list \<Rightarrow> pixel list \<Rightarrow> best \<Rightarrow> (exn + best) \<times> pixel list" where
  "scan_tiles lib target_avg [] cache st = (Inr st, cache)"
| "scan_tiles lib target_avg (tile # tiles) cache (min_err, best_match) =
     (case avg_rgb lib tile of
        Inl e \<Rightarrow> (Inl e, cache)
      | Inr tile_avg \<Rightarrow>
          (case error (asarray_pixel target_avg) (asarray_pixel tile_avg) of
             Inl e \<Rightarrow> (Inl e, cache @ [tile_avg])
           | Inr err \<Rightarrow>
               if improves err min_err
               then scan_tiles lib target_avg tiles (cache @ [tile_avg]) (Some err, Some tile)
               else scan_tiles lib target_avg tiles (cache @ [tile_avg]) (min_err, best_match)))"

text \<open>\<open>xs.index(x)\<close>: the first position whose element equals \<open>x\<close>; \<open>xs[i]\<close> for \<open>i \<ge> 0\<close>.\<close>

fun index :: "'a list \<Rightarrow> 'a \<Rightarrow> exn + nat" where
  "index [] x = Inl (ValueError ''x is not in list'')"
| "index (y # ys) x =
     (if y = x then Inr 0
      else case index ys x of Inl e \<Rightarrow> Inl e | Inr i \<Rightarrow> Inr (Suc i))"

definition subscript :: "'a list \<Rightarrow> nat \<Rightarrow> exn + 'a" where
  "subscript xs i = (if i < length xs then Inr (xs ! i) else Inl IndexError)"

text \<open>
  Lines 101 to 105: the scan of a populated cache. \<open>cached\<close> is the whole list
  \<open>cached_avgs\<close>, searched by value; the fourth argument is what is left to iterate.
\<close>

fun scan_cache :: "pixel list \<Rightarrow> image list \<Rightarrow> pixel \<Rightarrow> pixel list \<Rightarrow> best \<Rightarrow> exn + best" where
  "scan_cache cached tiles target_avg [] st = Inr st"
| "scan_cache cached tiles target_avg (avg # avgs) (min_err, best_match) =
     (case error (asarray_pixel target_avg) (asarray_pixel avg) of
        Inl e \<Rightarrow> Inl e
      | Inr err \<Rightarrow>
          if improves err min_err
          then (case index cached avg of
                  Inl e \<Rightarrow> Inl e
                | Inr i \<Rightarrow>
                    (case subscript tiles i of
                       Inl e \<Rightarrow> Inl e
                     | Inr t \<Rightarrow> scan_cache cached tiles target_avg avgs (Some err, Some t)))
          else scan_cache cached tiles target_avg avgs (min_err, best_match))"

text \<open>Lines 111 to 115: the scan of \<open>diff\<close> mode, on whole pixel arrays.\<close>

fun scan_diff :: "image \<Rightarrow> image list \<Rightarrow> best \<Rightarrow> exn + best" where
  "scan_diff target [] st = Inr st"
| "scan_diff target (tile # tiles) (min_err, best_match) =
     (case error (asarray_image target) (asarray_image tile) of
        Inl e \<Rightarrow> Inl e
      | Inr err \<Rightarrow>
          if improves err min_err then scan_diff target tiles (Some err, Some tile)
          else scan_diff target tiles (min_err, best_match))"

definition find_best_match ::
  "pil \<Rightarrow> image \<Rightarrow> image list \<Rightarrow> string \<Rightarrow> pystate \<Rightarrow> (exn + image option) \<times> pystate" where
  "find_best_match lib target tiles method s =
     (if method = ''avg'' then
        (case avg_rgb lib target of
           Inl e \<Rightarrow> (Inl e, s)
         | Inr target_avg \<Rightarrow>
             if cached_avgs s = [] then
               (case scan_tiles lib target_avg tiles (cached_avgs s) (None, None) of
                  (Inl e, c) \<Rightarrow> (Inl e, s\<lparr>cached_avgs := c\<rparr>)
                | (Inr st, c) \<Rightarrow> (Inr (snd st), s\<lparr>cached_avgs := c\<rparr>))
             else
               (case scan_cache (cached_avgs s) tiles target_avg (cached_avgs s) (None, None) of
                  Inl e \<Rightarrow> (Inl e, s)
                | Inr st \<Rightarrow> (Inr (snd st), s)))
      else if method = ''diff'' then
        (case scan_diff target tiles (None, None) of
           Inl e \<Rightarrow> (Inl e, s)
         | Inr st \<Rightarrow> (Inr (snd st), s))
      else (Inl SystemExit, print ''Unknown method. Exiting...'' s))"

subsection \<open>Files and the command line\<close>

text \<open>
  What the program reads from outside is a parameter: \<open>decode env path\<close> is
  \<open>Image.open(path)\<close> (\<open>None\<close> when the file is missing or no picture),
  \<open>listdir env path\<close> is \<open>os.listdir(path)\<close>, \<open>parse_int env s\<close> is the builtin
  \<open>int(s)\<close> (\<open>None\<close> when it raises ValueError), \<open>writable env path\<close> tells whether
  \<open>save\<close> succeeds, and \<open>elapsed env\<close> is the formatted run time. Every call that
  touches a file is appended to \<open>trace\<close> when it is made. The percentages that
  \<open>ProgressCounter\<close> writes carry no data and are left out.
\<close>

record env =
  decode :: "string \<Rightarrow> image option"
  listdir :: "string \<Rightarrow> string list option"
  parse_int :: "string \<Rightarrow> int option"
  writable :: "string \<Rightarrow> bool"
  elapsed :: string

definition path_join :: "string \<Rightarrow> string \<Rightarrow> string" where
  "path_join a b =
     (if b \<noteq> [] \<and> hd b = CHR ''/'' then b
      else if a = [] \<or> last a = CHR ''/'' then a @ b
      else a @ ''/'' @ b)"

definition image_open :: "env \<Rightarrow> string \<Rightarrow> pystate \<Rightarrow> (exn + image) \<times> pystate" where
  "image_open env path s =
     (case decode env path of
        None \<Rightarrow> (Inl (OSError path), log_event (Opened path) s)
      | Some img \<Rightarrow> (Inr img, log_event (Opened path) s))"

definition save :: "env \<Rightarrow> image \<Rightarrow> string \<Rightarrow> pystate \<Rightarrow> (exn + unit) \<times> pystate" where
  "save env img path s =
     (if writable env path then (Inr (), log_event (Saved path img) s)
      else (Inl (OSError path), s))"

subsection \<open>Preparing the target and the tiles\<close>

definition get_target ::
  "env \<Rightarrow> pil \<Rightarrow> string \<Rightarrow> int \<times> int \<Rightarrow> int \<Rightarrow> pystate \<Rightarrow> (exn + image) \<times> pystate" where
  "get_target env lib path tile_size scale s =
     (case image_open env path s of
        (Inl e, s1) \<Rightarrow> (Inl e, s1)
      | (Inr img, s1) \<Rightarrow>
          (let w = width img * scale;
               h = height img * scale
           in case resize lib img (w, h) None of
                Inl e \<Rightarrow> (Inl e, s1)
              | Inr img_large \<Rightarrow>
                  if fst tile_size = 0 then (Inl ZeroDivisionError, s1)
                  else
                    (let w_rem = (w mod fst tile_size) div 2;
                         h_rem = (h mod fst tile_size) div 2
                     in if w_rem \<noteq> 0 \<or> h_rem \<noteq> 0
                        then (crop lib img_large (w_rem, h_rem, w - w_rem, h - h_rem), s1)
                        else (Inr img_large, s1))))"

text \<open>Lines 38 to 42 of \<open>process_tile\<close>: the box handed to \<open>resize\<close>.\<close>

definition tile_box :: "image \<Rightarrow> box" where
  "tile_box tile =
     (let w = width tile;
          h = height tile;
          min_dim = min w h;
          w_crop = (w - min_dim) div 2;
          h_crop = (h - min_dim) div 2
      in (w_crop, h_crop, w - w_crop, h - h_crop))"

definition process_tile :: "pil \<Rightarrow> image \<Rightarrow> int \<times> int \<Rightarrow> exn + image" where
  "process_tile lib tile tile_size = resize lib tile tile_size (Some (tile_box tile))"

fun load_tiles ::
  "env \<Rightarrow> pil \<Rightarrow> string \<Rightarrow> int \<times> int \<Rightarrow> string \<Rightarrow> string list \<Rightarrow> image list \<Rightarrow> pystate
     \<Rightarrow> (exn + image list) \<times> pystate" where
  "load_tiles env lib tiles_path tile_size m [] tiles s = (Inr tiles, s)"
| "load_tiles env lib tiles_path tile_size m (file # files) tiles s =
     (case image_open env (path_join tiles_path file) s of
        (Inl e, s1) \<Rightarrow> (Inl e, s1)
      | (Inr img, s1) \<Rightarrow>
          (case process_tile lib (convert lib img m) tile_size of
             Inl e \<Rightarrow> (Inl e, s1)
           | Inr tile \<Rightarrow> load_tiles env lib tiles_path tile_size m files (tiles @ [tile]) s1))"

definition get_tiles ::
  "env \<Rightarrow> pil \<Rightarrow> string \<Rightarrow> int \<times> int \<Rightarrow> string \<Rightarrow> pystate \<Rightarrow> (exn + image list) \<times> pystate" where
  "get_tiles env lib tiles_path tile_size m s =
     (let s1 = log_event (Listed tiles_path) (print ''Getting tiles...'' s)
      in case listdir env tiles_path of
           None \<Rightarrow> (Inl (OSError tiles_path), s1)
         | Some files \<Rightarrow>
             (case load_tiles env lib tiles_path tile_size m files [] s1 of
                (Inl e, s2) \<Rightarrow> (Inl e, s2)
              | (Inr tiles, s2) \<Rightarrow> (Inr tiles, print ''Done.'' s2)))"

subsection \<open>The grid\<close>

fun collect :: "(exn + 'a) list \<Rightarrow> exn + 'a list" where
  "collect [] = Inr []"
| "collect (r # rs) =
     (case r of
        Inl e \<Rightarrow> Inl e
      | Inr x \<Rightarrow> (case collect rs of Inl e \<Rightarrow> Inl e | Inr xs \<Rightarrow> Inr (x # xs)))"

definition gridify :: "pil \<Rightarrow> image \<Rightarrow> int \<times> int \<Rightarrow> exn + image list list" where
  "gridify lib im tile_size =
     (let w = fst tile_size;
          h = snd tile_size
      in if h = 0 \<or> w = 0 then Inl ZeroDivisionError
         else
           (let rows = height im div h;
                cols = width im div w
            in collect (map (\<lambda>i. collect (map (\<lambda>j.
                 crop lib im (j * w, i * h, (j + 1) * w, (i + 1) * h)) [0..cols - 1]))
                 [0..rows - 1])))"

subsection \<open>Matching the grid and composing the output\<close>

fun match_row ::
  "pil \<Rightarrow> image list \<Rightarrow> string \<Rightarrow> image list \<Rightarrow> image option list \<Rightarrow> pystate
     \<Rightarrow> (exn + image option list) \<times> pystate" where
  "match_row lib tiles method [] mosaic_row s = (Inr mosaic_row, s)"
| "match_row lib tiles method (grid_tile # row) mosaic_row s =
     (case find_best_match lib grid_tile tiles method s of
        (Inl e, s1) \<Rightarrow> (Inl e, s1)
      | (Inr best_match, s1) \<Rightarrow>
          match_row lib tiles method row (mosaic_row @ [best_match]) s1)"

fun match_grid ::
  "pil \<Rightarrow> image list \<Rightarrow> string \<Rightarrow> image list list \<Rightarrow> image option list list \<Rightarrow> pystate
     \<Rightarrow> (exn + image option list list) \<times> pystate" where
  "match_grid lib tiles method [] mosaic_tiles s = (Inr mosaic_tiles, s)"
| "match_grid lib tiles method (row # grid) mosaic_tiles s =
     (case match_row lib tiles method row [] s of
        (Inl e, s1) \<Rightarrow> (Inl e, s1)
      | (Inr mosaic_row, s1) \<Rightarrow>
          match_grid lib tiles method grid (mosaic_tiles @ [mosaic_row]) s1)"

text \<open>Lines 140 to 142: \<open>i\<close> and \<open>j\<close> are the counters of \<open>enumerate\<close>.\<close>

fun paste_row ::
  "pil \<Rightarrow> int \<times> int \<Rightarrow> int \<Rightarrow> int \<Rightarrow> image option list \<Rightarrow> image \<Rightarrow> exn + image" where
  "paste_row lib tile_size i j [] output = Inr output"
| "paste_row lib tile_size i j (tile # row) output =
     (case paste lib output tile (j * fst tile_size, i * snd tile_size) of
        Inl e \<Rightarrow> Inl e
      | Inr output' \<Rightarrow> paste_row lib tile_size i (j + 1) row output')"

fun paste_grid ::
  "pil \<Rightarrow> int \<times> int \<Rightarrow> int \<Rightarrow> image option list list \<Rightarrow> image \<Rightarrow> exn + image" where
  "paste_grid lib tile_size i [] output = Inr output"
| "paste_grid lib tile_size i (row # rows) output =
     (case paste_row lib tile_size i 0 row output of
        Inl e \<Rightarrow> Inl e
      | Inr output' \<Rightarrow> paste_grid lib tile_size (i + 1) rows output')"

text \<open>Lines 137 to 144 of \<open>mosaic\<close>: the compositor.\<close>

definition compose ::
  "env \<Rightarrow> pil \<Rightarrow> image \<Rightarrow> image option list list \<Rightarrow> int \<times> int \<Rightarrow> string \<Rightarrow> string \<Rightarrow> pystate
     \<Rightarrow> (exn + unit) \<times> pystate" where
  "compose env lib im mosaic_tiles tile_size out_file m s =
     (let s1 = print ''Creating mosaic...'' s
      in case new_image lib m (width im, height im) of
           Inl e \<Rightarrow> (Inl e, s1)
         | Inr output \<Rightarrow>
             (case paste_grid lib tile_size 0 mosaic_tiles output of
                Inl e \<Rightarrow> (Inl e, s1)
              | Inr output' \<Rightarrow>
                  (case save env output' out_file s1 of
                     (Inl e, s2) \<Rightarrow> (Inl e, s2)
                   | (Inr u, s2) \<Rightarrow> (Inr (), print ''Done.'' s2))))"

definition mosaic ::
  "env \<Rightarrow> pil \<Rightarrow> image \<Rightarrow> image list \<Rightarrow> int \<times> int \<Rightarrow> string \<Rightarrow> string \<Rightarrow> string \<Rightarrow> pystate
     \<Rightarrow> (exn + unit) \<times> pystate" where
  "mosaic env lib im tiles tile_size out_file m method s =
     (case gridify lib im tile_size of
        Inl e \<Rightarrow> (Inl e, s)
      | Inr grid \<Rightarrow>
          (case match_grid lib tiles method grid [] (print ''Finding best matches...'' s) of
             (Inl e, s1) \<Rightarrow> (Inl e, s1)
           | (Inr mosaic_tiles, s1) \<Rightarrow>
               compose env lib im mosaic_tiles tile_size out_file m (print ''Done.'' s1)))"

subsection \<open>The entry point\<close>

definition usage :: "string \<Rightarrow> string list" where
  "usage prog =
     [''Usage: '' @ prog @ '' <image> <tiles directory> <output> <tile size> <scale> <method>'',
      ''image - image from which the mosaic is created'',
      ''tiles directory - directory containing the images to be used as tiles for the mosaic'',
      ''output - name of the output image'',
      ''tile size - size of the tiles in px'',
      ''scale - positive integer used for scaling the image'',
      ''method - the method used for finding the best matches: '' @ [CHR 0x27] @ ''avg''
        @ [CHR 0x27] @ '' or '' @ [CHR 0x27] @ ''diff'' @ [CHR 0x27]]"

definition unknown_method :: "string \<Rightarrow> string" where
  "unknown_method method =
     ''Unknown method '' @ [CHR 0x27] @ method @ [CHR 0x27] @ ''. Available methods are ''
       @ [CHR 0x27] @ ''avg'' @ [CHR 0x27] @ '' and '' @ [CHR 0x27] @ ''diff'' @ [CHR 0x27]"

definition main :: "env \<Rightarrow> pil \<Rightarrow> string list \<Rightarrow> (exn + unit) \<times> pystate" where
  "main env lib argv =
     (if length argv \<noteq> 7 then
        (case argv of
           [] \<Rightarrow> (Inl IndexError, init_state)
         | prog # _ \<Rightarrow> (Inl SystemExit, init_state\<lparr>stdout := usage prog\<rparr>))
      else
        (case parse_int env (argv ! 4) of
           None \<Rightarrow> (Inl (ValueError ''invalid literal for int() with base 10''), init_state)
         | Some sz \<Rightarrow>
             (case parse_int env (argv ! 5) of
                None \<Rightarrow> (Inl (ValueError ''invalid literal for int() with base 10''), init_state)
              | Some scale0 \<Rightarrow>
                  (let method = argv ! 6;
                       tile_size = (sz, sz);
                       scale = (if scale0 < 1 then 1 else scale0)
                   in if method \<noteq> ''avg'' \<and> method \<noteq> ''diff''
                      then (Inl SystemExit, print (unknown_method method) init_state)
                      else
                        (case get_target env lib (argv ! 1) tile_size scale init_state of
                           (Inl e, s1) \<Rightarrow> (Inl e, s1)
                         | (Inr target, s1) \<Rightarrow>
                             if sz > min (width target) (height target)
                             then (Inl SystemExit, print ''Tiles cannot be larger than the image'' s1)
                             else
                               (case get_tiles env lib (argv ! 2) tile_size (mode target) s1 of
                                  (Inl e, s2) \<Rightarrow> (Inl e, s2)
                                | (Inr tiles, s2) \<Rightarrow>
                                    (case mosaic env lib target tiles tile_size (argv ! 3)
                                            (mode target) method s2 of
                                       (Inl e, s3) \<Rightarrow> (Inl e, s3)
                                     | (Inr u, s3) \<Rightarrow>
                                         (Inr (), print (''Run time: '' @ elapsed env @ '' seconds'')
                                            s3))))))))"

subsection \<open>Vocabulary of the statements\<close>

text \<open>
  The value \<open>avg_rgb\<close> returns (lemma \<open>avg_rgb_returns\<close> below): the one pixel of the
  image resized to 1 by 1.
\<close>

definition average :: "pil \<Rightarrow> image \<Rightarrow> pixel" where
  "average lib im = antialias lib im (0, 0, width im, height im) (1, 1) 0 0"

text \<open>
  What \<open>find_best_match\<close> compares in each mode: \<open>error(target_avg, tile_avg)\<close> in
  \<open>avg\<close> mode, \<open>error(target, tile)\<close> otherwise.
\<close>

definition dissimilarity :: "pil \<Rightarrow> string \<Rightarrow> image \<Rightarrow> image \<Rightarrow> exn + real" where
  "dissimilarity lib method target tile =
     (if method = ''avg''
      then error (asarray_pixel (average lib target)) (asarray_pixel (average lib tile))
      else error (asarray_image target) (asarray_image tile))"

text \<open>\<open>first_min ds k\<close>: position \<open>k\<close> holds the least value of \<open>ds\<close>, and is the first to.\<close>

definition first_min :: "real list \<Rightarrow> nat \<Rightarrow> bool" where
  "first_min ds k \<longleftrightarrow>
     k < length ds \<and> list_all (\<lambda>d. ds ! k \<le> d) ds \<and> list_all (\<lambda>d. ds ! k < d) (take k ds)"

text \<open>The three scans without their exceptions: a list of scored candidates.\<close>

fun pick :: "(real \<times> 'a) list \<Rightarrow> real option \<times> 'a option \<Rightarrow> real option \<times> 'a option" where
  "pick [] st = st"
| "pick ((e, x) # xs) (m, b) =
     (if improves e m then pick xs (Some e, Some x) else pick xs (m, b))"

text \<open>The squared distance of two channel tuples.\<close>

definition sq_dist :: "pixel \<Rightarrow> pixel \<Rightarrow> real" where
  "sq_dist p q = (\<Sum>(a, b)\<leftarrow>zip p q. (real_of_int a - real_of_int b)\<^sup>2)"

text \<open>The size of a picture as Pillow reports it, and the pictures a run has saved.\<close>

definition dims :: "image \<Rightarrow> int \<times> int" where
  "dims im = (width im, height im)"

definition saved :: "pystate \<Rightarrow> image list" where
  "saved s = concat (map (\<lambda>e. case e of Saved p img \<Rightarrow> [img] | _ \<Rightarrow> []) (trace s))"

subsection \<open>Test data\<close>

text \<open>
  A library whose filters are exact on pictures of one colour (a resized picture
  repeats the first pixel of its source, a converted one keeps its pixels), and pictures
  of one colour.
\<close>

definition flat_lib :: pil where
  "flat_lib = \<lparr>antialias = (\<lambda>im bx sz x y. case data im of [] \<Rightarrow> [] | p # _ \<Rightarrow> p),
               converted = (\<lambda>m im. data im),
               black = (\<lambda>m. [0, 0, 0])\<rparr>"

definition solid :: "int \<Rightarrow> int \<Rightarrow> pixel \<Rightarrow> image" where
  "solid w h p = \<lparr>width = w, height = h, mode = ''RGB'', data = replicate (nat (w * h)) p\<rparr>"

text \<open>
  Three tiles, the second and third with one average, and a cell closest to both; a cache
  left by a single black tile; a file system with one 4 by 4 picture and an empty
  directory of tiles; the command line with its tile size and method left open.
\<close>

definition demo_red :: image where "demo_red = solid 1 1 [255, 0, 0]"

definition demo_green :: image where "demo_green = solid 1 1 [0, 255, 0]"

definition demo_red2 :: image where
  "demo_red2 = \<lparr>width = 2, height = 1, mode = ''RGB'', data = [[255, 0, 0], [0, 0, 0]]\<rparr>"

definition demo_cell :: image where "demo_cell = solid 1 1 [250, 0, 0]"

definition demo_tiles :: "image list" where "demo_tiles = [demo_green, demo_red, demo_red2]"

definition stale_state :: pystate where
  "stale_state = init_state\<lparr>cached_avgs := [[0, 0, 0]]\<rparr>"

definition demo_white :: image where "demo_white = solid 1 1 [255, 255, 255]"

definition demo_black :: image where "demo_black = solid 1 1 [0, 0, 0]"

definition demo_env :: env where
  "demo_env = \<lparr>decode = (\<lambda>p. if p = ''target.png'' then Some (solid 4 4 [0, 0, 0]) else None),
               listdir = (\<lambda>p. if p = ''tiles'' then Some [] else None),
               parse_int = (\<lambda>a. if a = ''3'' then Some 3 else if a = ''5'' then Some 5
                                 else if a = ''1'' then Some 1 else None),
               writable = (\<lambda>p. True),
               elapsed = ''0.01''\<rparr>"

definition demo_argv :: "string \<Rightarrow> string \<Rightarrow> string list" where
  "demo_argv sz method = [''mosaic.py'', ''target.png'', ''tiles'', ''out.png'', sz, ''1'', method]"

section \<open>Properties\<close>

subsection \<open>Auxiliary facts\<close>

lemmas demo_defs = demo_red_def demo_green_def demo_red2_def demo_cell_def demo_tiles_def
  solid_def flat_lib_def average_def

lemma avg_rgb_returns: "avg_rgb lib im = Inr (average lib im)"
  by (simp add: avg_rgb_def resize_def getpixel_def raster_def inside_def average_def)


lemma first_min_iff:
  "first_min ds k \<longleftrightarrow> k < length ds \<and> (\<forall>j<length ds. ds ! k \<le> ds ! j) \<and> (\<forall>j<k. ds ! k < ds ! j)"
  by (auto simp: first_min_def list_all_length)


lemma pick_append: "pick (xs @ ys) st = pick ys (pick xs st)"
proof (induction xs arbitrary: st)
  case Nil
  show ?case by simp
next
  case (Cons p xs)
  obtain e x where p: "p = (e, x)" by (cases p)
  obtain m b where st: "st = (m, b)" by (cases st)
  show ?case by (simp add: p st Cons.IH)
qed

lemma first_min_single: "first_min [d] 0"
  by (simp add: first_min_def)

lemma first_min_snoc_new:
  assumes "first_min ds k" "e < ds ! k"
  shows "first_min (ds @ [e]) (length ds)"
  using assms unfolding first_min_iff
  by (auto simp: nth_append less_Suc_eq)

lemma first_min_snoc_keep:
  assumes "first_min ds k" "\<not> e < ds ! k"
  shows "first_min (ds @ [e]) k"
  using assms unfolding first_min_iff
  by (auto simp: nth_append less_Suc_eq)

lemma pick_first_min:
  "xs \<noteq> [] \<Longrightarrow>
   \<exists>k. first_min (map fst xs) k \<and> pick xs (None, None) = (Some (fst (xs ! k)), Some (snd (xs ! k)))"
proof (induction xs rule: rev_induct)
  case Nil
  then show ?case by simp
next
  case (snoc p xs)
  obtain e x where p: "p = (e, x)" by (cases p)
  show ?case
  proof (cases "xs = []")
    case True
    have "first_min (map fst [p]) 0" by (simp add: first_min_single)
    moreover have "pick [p] (None, None) = (Some (fst ([p] ! 0)), Some (snd ([p] ! 0)))"
      by (simp add: p improves_def)
    ultimately show ?thesis using True by auto
  next
    case False
    then obtain k where k: "first_min (map fst xs) k"
      and pk: "pick xs (None, None) = (Some (fst (xs ! k)), Some (snd (xs ! k)))"
      using snoc.IH by blast
    have kl: "k < length xs" using k by (simp add: first_min_def)
    show ?thesis
    proof (cases "e < fst (xs ! k)")
      case True
      have "first_min (map fst (xs @ [p])) (length xs)"
        using first_min_snoc_new [OF k, of e] True kl by (simp add: p)
      moreover have "pick (xs @ [p]) (None, None)
          = (Some (fst ((xs @ [p]) ! length xs)), Some (snd ((xs @ [p]) ! length xs)))"
        using True by (simp add: pick_append pk p improves_def)
      ultimately show ?thesis by blast
    next
      case False
      have "first_min (map fst (xs @ [p])) k"
        using first_min_snoc_keep [OF k, of e] False kl by (simp add: p)
      moreover have "pick (xs @ [p]) (None, None)
          = (Some (fst ((xs @ [p]) ! k)), Some (snd ((xs @ [p]) ! k)))"
        using False kl by (simp add: pick_append pk p improves_def nth_append)
      ultimately show ?thesis by blast
    qed
  qed
qed


lemma first_min_exists: "ds \<noteq> [] \<Longrightarrow> \<exists>k. first_min ds k"
proof -
  assume "ds \<noteq> []"
  then have "map (\<lambda>d. (d, ())) ds \<noteq> []" by simp
  from pick_first_min [OF this] show ?thesis by (auto simp: comp_def)
qed

lemma first_min_unique: "first_min ds k \<Longrightarrow> first_min ds k' \<Longrightarrow> k = k'"
  unfolding first_min_iff
  by (metis linorder_neqE_nat not_le)

lemma scan_diff_pick:
  "\<forall>t\<in>set tiles. error (asarray_image target) (asarray_image t) = Inr (d t) \<Longrightarrow>
   scan_diff target tiles st = Inr (pick (map (\<lambda>t. (d t, t)) tiles) st)"
proof (induction tiles arbitrary: st)
  case Nil
  show ?case by simp
next
  case (Cons t tiles)
  obtain m b where st: "st = (m, b)" by (cases st)
  from Cons show ?case by (simp add: st)
qed

lemma scan_tiles_pick:
  "\<forall>t\<in>set tiles. error (asarray_pixel ta) (asarray_pixel (average lib t)) = Inr (d t) \<Longrightarrow>
   scan_tiles lib ta tiles cache st
     = (Inr (pick (map (\<lambda>t. (d t, t)) tiles) st), cache @ map (average lib) tiles)"
proof (induction tiles arbitrary: st cache)
  case Nil
  show ?case by simp
next
  case (Cons t tiles)
  obtain m b where st: "st = (m, b)" by (cases st)
  from Cons show ?case by (simp add: st avg_rgb_returns)
qed

lemma scan_tiles_extends: "\<exists>ys. snd (scan_tiles lib ta tiles cache st) = cache @ ys"
proof (induction tiles arbitrary: st cache)
  case Nil
  show ?case by simp
next
  case (Cons t tiles)
  obtain m b where st: "st = (m, b)" by (cases st)
  show ?case
  proof (cases "error (asarray_pixel ta) (asarray_pixel (average lib t))")
    case (Inl e)
    then show ?thesis by (simp add: st avg_rgb_returns)
  next
    case (Inr err)
    from Cons.IH [of "cache @ [average lib t]" "(Some err, Some t)"]
         Cons.IH [of "cache @ [average lib t]" "(m, b)"]
    show ?thesis using Inr by (auto simp: st avg_rgb_returns)
  qed
qed

lemma index_first: "x \<notin> set xs \<Longrightarrow> index (xs @ x # ys) x = Inr (length xs)"
  by (induction xs) auto

lemma scan_cache_general:
  assumes "\<forall>a\<in>set cached. error (asarray_pixel ta) (asarray_pixel a) = Inr (d a)"
    and "cached = pre @ rest" and "cached \<noteq> []"
    and "pre = [] \<Longrightarrow> m = None"
    and "pre \<noteq> [] \<Longrightarrow> \<exists>k. first_min (map d pre) k \<and> m = Some (d (pre ! k))
           \<and> k < length tiles \<and> b = Some (tiles ! k)"
  shows "\<exists>k. first_min (map d cached) k \<and>
           scan_cache cached tiles ta rest (m, b)
             = (if k < length tiles then Inr (Some (d (cached ! k)), Some (tiles ! k))
                else Inl IndexError)"
  using assms(2-)
proof (induction rest arbitrary: pre m b)
  case Nil
  then have "pre \<noteq> []" by simp
  with Nil obtain k where "first_min (map d pre) k" "m = Some (d (pre ! k))"
    "k < length tiles" "b = Some (tiles ! k)" by blast
  with Nil(1) show ?case by auto
next
  case (Cons a rest)
  have err: "error (asarray_pixel ta) (asarray_pixel a) = Inr (d a)"
    using assms(1) Cons.prems(1) by simp
  have split: "cached = (pre @ [a]) @ rest" using Cons.prems(1) by simp
  show ?case
  proof (cases "improves (d a) m")
    case True
    have below: "pre \<noteq> [] \<Longrightarrow> \<exists>k. first_min (map d pre) k \<and> d a < d (pre ! k)"
      using Cons.prems(4) True by (auto simp: improves_def)
    have notin: "a \<notin> set pre"
    proof
      assume "a \<in> set pre"
      then obtain j where j: "j < length pre" "pre ! j = a" by (auto simp: in_set_conv_nth)
      then have "pre \<noteq> []" by auto
      from below [OF this] obtain k where "first_min (map d pre) k" "d a < d (pre ! k)" by blast
      then show False using j by (auto simp: first_min_iff)
    qed
    have idx: "index cached a = Inr (length pre)"
      using index_first [OF notin] Cons.prems(1) by simp
    have fm: "first_min (map d (pre @ [a])) (length pre)"
    proof (cases "pre = []")
      case True
      then show ?thesis by (simp add: first_min_single)
    next
      case False
      from below [OF this] obtain k where k: "first_min (map d pre) k" "d a < d (pre ! k)" by blast
      then have "k < length pre" by (simp add: first_min_def)
      with first_min_snoc_new [OF k(1), of "d a"] k(2) show ?thesis by simp
    qed
    show ?thesis
    proof (cases "length pre < length tiles")
      case inb: True
      have "\<exists>k. first_min (map d cached) k \<and>
           scan_cache cached tiles ta rest (Some (d a), Some (tiles ! length pre))
             = (if k < length tiles then Inr (Some (d (cached ! k)), Some (tiles ! k))
                else Inl IndexError)"
      proof (rule Cons.IH [OF split Cons.prems(2)])
        show "pre @ [a] = [] \<Longrightarrow> Some (d a) = None" by simp
        show "\<exists>k. first_min (map d (pre @ [a])) k \<and> Some (d a) = Some (d ((pre @ [a]) ! k))
           \<and> k < length tiles \<and> Some (tiles ! length pre) = Some (tiles ! k)"
          using fm inb by (intro exI [of _ "length pre"]) simp
      qed
      then show ?thesis using True err idx inb by (simp add: subscript_def)
    next
      case oob: False
      from first_min_exists [of "map d cached"] Cons.prems(2)
      obtain k where k: "first_min (map d cached) k" by auto
      have "length pre \<le> k"
      proof (rule ccontr)
        assume "\<not> length pre \<le> k"
        then have kp: "k < length pre" by simp
        have kl: "k < length cached" using k by (simp add: first_min_def)
        have lp: "length pre < length cached" using Cons.prems(1) by simp
        have "\<forall>j<length (map d cached). map d cached ! k \<le> map d cached ! j"
          using k unfolding first_min_iff by blast
        then have "map d cached ! k \<le> map d cached ! length pre"
          using lp by simp
        then have "d (cached ! k) \<le> d (cached ! length pre)"
          using kl lp by simp
        then have 1: "d (pre ! k) \<le> d a" using kp Cons.prems(1) by (simp add: nth_append)
        from kp have "pre \<noteq> []" by auto
        from below [OF this] obtain k' where "first_min (map d pre) k'" "d a < d (pre ! k')" by blast
        then have "d a < d (pre ! k)" using kp by (auto simp: first_min_iff)
        with 1 show False by simp
      qed
      then have "\<not> k < length tiles" using oob by simp
      with k show ?thesis using True err idx oob by (auto simp: subscript_def)
    qed
  next
    case False
    then have ne: "pre \<noteq> []" using Cons.prems(3) by (auto simp: improves_def)
    from Cons.prems(4) [OF ne] obtain k where k: "first_min (map d pre) k" "m = Some (d (pre ! k))"
      "k < length tiles" "b = Some (tiles ! k)" by blast
    then have kp: "k < length pre" by (simp add: first_min_def)
    have nl: "\<not> d a < d (pre ! k)" using False k(2) by (simp add: improves_def)
    have fm: "first_min (map d (pre @ [a])) k"
      using first_min_snoc_keep [OF k(1), of "d a"] nl kp by simp
    have "\<exists>k. first_min (map d cached) k \<and>
         scan_cache cached tiles ta rest (m, b)
           = (if k < length tiles then Inr (Some (d (cached ! k)), Some (tiles ! k))
              else Inl IndexError)"
    proof (rule Cons.IH [OF split Cons.prems(2)])
      show "pre @ [a] = [] \<Longrightarrow> m = None" by simp
      show "\<exists>k. first_min (map d (pre @ [a])) k \<and> m = Some (d ((pre @ [a]) ! k))
           \<and> k < length tiles \<and> b = Some (tiles ! k)"
        using fm k kp by (intro exI [of _ k]) (simp add: nth_append)
    qed
    then show ?thesis using False err by simp
  qed
qed



lemma error_pixel:
  "length p = length q \<Longrightarrow> error (asarray_pixel p) (asarray_pixel q) = Inr (sq_dist p q)"
  by (simp add: error_def asarray_pixel_def sq_dist_def zip_map_map comp_def case_prod_unfold)

lemma error_pixel_mismatch:
  "length p \<noteq> length q \<Longrightarrow> \<exists>e. error (asarray_pixel p) (asarray_pixel q) = Inl e"
  by (simp add: error_def asarray_pixel_def)

lemma fbm_first_min:
  assumes meth: "method = ''avg'' \<or> method = ''diff''"
    and ne: "tiles \<noteq> []"
    and defined: "\<forall>t\<in>set tiles. dissimilarity lib method target t = Inr (d t)"
    and cache: "method = ''avg'' \<Longrightarrow> cached_avgs s = [] \<or> cached_avgs s = map (average lib) tiles"
  shows "\<exists>k. first_min (map d tiles) k \<and>
           fst (find_best_match lib target tiles method s) = Inr (Some (tiles ! k))"
proof -
  let ?xs = "map (\<lambda>t. (d t, t)) tiles"
  have xs: "?xs \<noteq> []" using ne by simp
  from pick_first_min [OF xs] obtain k where k: "first_min (map d tiles) k"
    and pk: "pick ?xs (None, None) = (Some (fst (?xs ! k)), Some (snd (?xs ! k)))"
    by (auto simp: comp_def)
  have kl: "k < length tiles" using k by (simp add: first_min_def)
  have pk': "snd (pick ?xs (None, None)) = Some (tiles ! k)" using pk kl by simp
  show ?thesis
  proof (cases "method = ''avg''")
    case False
    then have m: "method = ''diff''" using meth by simp
    have "\<forall>t\<in>set tiles. error (asarray_image target) (asarray_image t) = Inr (d t)"
      using defined by (simp add: dissimilarity_def m)
    from scan_diff_pick [OF this] have "fst (find_best_match lib target tiles method s)
        = Inr (snd (pick ?xs (None, None)))"
      by (simp add: find_best_match_def m)
    with k pk' show ?thesis by auto
  next
    case True
    have def': "\<forall>t\<in>set tiles.
        error (asarray_pixel (average lib target)) (asarray_pixel (average lib t)) = Inr (d t)"
      using defined by (simp add: dissimilarity_def True)
    show ?thesis
    proof (cases "cached_avgs s = []")
      case empty: True
      from scan_tiles_pick [OF def'] have "fst (find_best_match lib target tiles method s)
          = Inr (snd (pick ?xs (None, None)))"
        by (simp add: find_best_match_def True avg_rgb_returns empty)
      with k pk' show ?thesis by auto
    next
      case full: False
      then have c: "cached_avgs s = map (average lib) tiles" using cache [OF True] by simp
      let ?d = "\<lambda>a. sq_dist (average lib target) a"
      have len: "\<forall>t\<in>set tiles. length (average lib target) = length (average lib t)"
      proof
        fix t assume "t \<in> set tiles"
        with def' have "error (asarray_pixel (average lib target)) (asarray_pixel (average lib t))
          = Inr (d t)" by simp
        then show "length (average lib target) = length (average lib t)"
          using error_pixel_mismatch [of "average lib target" "average lib t"] by auto
      qed
      have dd: "\<forall>t\<in>set tiles. d t = ?d (average lib t)"
        using def' len by (auto simp: error_pixel)
      have 1: "\<forall>a\<in>set (cached_avgs s).
          error (asarray_pixel (average lib target)) (asarray_pixel a) = Inr (?d a)"
        using len by (auto simp: c error_pixel)
      from scan_cache_general [of "cached_avgs s" "average lib target" ?d "[]" "cached_avgs s"
          None tiles None, OF 1] full
      obtain k' where k': "first_min (map ?d (cached_avgs s)) k'"
        and r: "scan_cache (cached_avgs s) tiles (average lib target) (cached_avgs s) (None, None)
             = (if k' < length tiles then Inr (Some (?d (cached_avgs s ! k')), Some (tiles ! k'))
                else Inl IndexError)"
        by auto
      have "map ?d (cached_avgs s) = map d tiles" using dd by (simp add: c)
      with k' have "first_min (map d tiles) k'" by simp
      moreover have "k' < length tiles" using k' by (simp add: first_min_def c)
      ultimately show ?thesis using r
        by (auto simp: find_best_match_def True avg_rgb_returns full)
    qed
  qed
qed


lemma dissimilarity_avg:
  "length (average lib t) = length (average lib target) \<Longrightarrow>
   dissimilarity lib ''avg'' target t = Inr (sq_dist (average lib target) (average lib t))"
  by (simp add: dissimilarity_def error_pixel)


subsection \<open>The matcher returns the first minimum\<close>



subsection \<open>A warm cache changes nothing\<close>

lemma scan_cache_simulates:
  assumes "tiles = pre @ rest"
    and "\<forall>t\<in>set pre. \<exists>e v. error (asarray_pixel ta) (asarray_pixel (average lib t)) = Inr e
           \<and> m = Some v \<and> v \<le> e"
  shows "scan_cache (map (average lib) tiles) tiles ta (map (average lib) rest) (m, b)
           = fst (scan_tiles lib ta rest c (m, b))"
  using assms
proof (induction rest arbitrary: pre m b c)
  case Nil
  show ?case by simp
next
  case (Cons t rest)
  let ?a = "average lib t"
  have split: "tiles = (pre @ [t]) @ rest" using Cons.prems(1) by simp
  show ?case
  proof (cases "error (asarray_pixel ta) (asarray_pixel ?a)")
    case (Inl e)
    then show ?thesis by (simp add: avg_rgb_returns)
  next
    case (Inr err)
    show ?thesis
    proof (cases "improves err m")
      case True
      have notin: "?a \<notin> set (map (average lib) pre)"
      proof
        assume "?a \<in> set (map (average lib) pre)"
        then obtain t' where t': "t' \<in> set pre" "average lib t' = ?a" by auto
        with Cons.prems(2) obtain e v where
          "error (asarray_pixel ta) (asarray_pixel (average lib t')) = Inr e" "m = Some v" "v \<le> e"
          by blast
        with t'(2) Inr True show False by (simp add: improves_def)
      qed
      have idx: "index (map (average lib) tiles) ?a = Inr (length pre)"
        using index_first [OF notin, of "map (average lib) rest"] Cons.prems(1) by simp
      have sub: "subscript tiles (length pre) = Inr t"
        using Cons.prems(1) by (simp add: subscript_def)
      have inv: "\<forall>t'\<in>set (pre @ [t]). \<exists>e v.
          error (asarray_pixel ta) (asarray_pixel (average lib t')) = Inr e
          \<and> Some err = Some v \<and> v \<le> e"
      proof
        fix t' assume "t' \<in> set (pre @ [t])"
        then consider "t' \<in> set pre" | "t' = t" by auto
        then show "\<exists>e v. error (asarray_pixel ta) (asarray_pixel (average lib t')) = Inr e
          \<and> Some err = Some v \<and> v \<le> e"
        proof cases
          case 1
          with Cons.prems(2) obtain e v where
            "error (asarray_pixel ta) (asarray_pixel (average lib t')) = Inr e" "m = Some v" "v \<le> e"
            by blast
          with True show ?thesis by (auto simp: improves_def)
        next
          case 2
          with Inr show ?thesis by simp
        qed
      qed
      from Cons.IH [OF split inv, of "Some t" "c @ [?a]"]
      show ?thesis using Inr True idx sub by (simp add: avg_rgb_returns)
    next
      case False
      then obtain v where v: "m = Some v" "v \<le> err"
        by (cases m) (auto simp: improves_def)
      have inv: "\<forall>t'\<in>set (pre @ [t]). \<exists>e v.
          error (asarray_pixel ta) (asarray_pixel (average lib t')) = Inr e
          \<and> m = Some v \<and> v \<le> e"
        using Cons.prems(2) Inr v by auto
      from Cons.IH [OF split inv, of b "c @ [?a]"]
      show ?thesis using Inr False by (simp add: avg_rgb_returns)
    qed
  qed
qed

lemma fbm_cold_warm_equal:
  assumes "cached_avgs cold = []" and "cached_avgs warm = map (average lib) tiles"
  shows "fst (find_best_match lib target tiles ''avg'' cold)
       = fst (find_best_match lib target tiles ''avg'' warm)"
proof (cases "tiles = []")
  case True
  then show ?thesis using assms by (simp add: find_best_match_def avg_rgb_returns)
next
  case False
  have "scan_cache (map (average lib) tiles) tiles (average lib target) (map (average lib) tiles)
          (None, None)
        = fst (scan_tiles lib (average lib target) tiles [] (None, None))"
    using scan_cache_simulates [of tiles "[]" tiles "average lib target" lib None None "[]"]
    by simp
  then show ?thesis using assms False
    by (simp add: find_best_match_def avg_rgb_returns split: prod.splits sum.splits)
qed

lemma fbm_cold_warm_tile:
  assumes "tiles \<noteq> []"
    and "\<forall>t\<in>set tiles. length (average lib t) = length (average lib target)"
    and "cached_avgs cold = []"
    and "cached_avgs warm = map (average lib) tiles"
  shows "\<exists>k<length tiles.
           fst (find_best_match lib target tiles ''avg'' cold) = Inr (Some (tiles ! k))
         \<and> fst (find_best_match lib target tiles ''avg'' warm) = Inr (Some (tiles ! k))
         \<and> cached_avgs (snd (find_best_match lib target tiles ''avg'' cold)) = map (average lib) tiles
         \<and> cached_avgs (snd (find_best_match lib target tiles ''avg'' warm)) = map (average lib) tiles"
proof -
  let ?d = "\<lambda>t. sq_dist (average lib target) (average lib t)"
  have d: "\<forall>t\<in>set tiles. dissimilarity lib ''avg'' target t = Inr (?d t)"
    using assms(2) by (simp add: dissimilarity_avg)
  from fbm_first_min [of "''avg''" tiles lib target ?d cold, OF _ assms(1) d] assms(3)
  obtain k where k: "first_min (map ?d tiles) k"
    and r: "fst (find_best_match lib target tiles ''avg'' cold) = Inr (Some (tiles ! k))" by auto
  from fbm_first_min [of "''avg''" tiles lib target ?d warm, OF _ assms(1) d] assms(4)
  obtain k' where k': "first_min (map ?d tiles) k'"
    and r': "fst (find_best_match lib target tiles ''avg'' warm) = Inr (Some (tiles ! k'))" by auto
  have kk: "k' = k" using first_min_unique [OF k' k] .
  have kl: "k < length tiles" using k by (simp add: first_min_def)
  have e: "\<forall>t\<in>set tiles.
      error (asarray_pixel (average lib target)) (asarray_pixel (average lib t)) = Inr (?d t)"
    using assms(2) by (simp add: error_pixel)
  have c1: "cached_avgs (snd (find_best_match lib target tiles ''avg'' cold)) = map (average lib) tiles"
    using scan_tiles_pick [OF e, of "[]" "(None, None)"] assms(3)
    by (simp add: find_best_match_def avg_rgb_returns)
  have wne: "cached_avgs warm \<noteq> []" using assms(1,4) by simp
  have c2: "cached_avgs (snd (find_best_match lib target tiles ''avg'' warm)) = map (average lib) tiles"
    using wne assms(4) by (simp add: find_best_match_def avg_rgb_returns split: sum.splits)
  show ?thesis using r r' kk kl c1 c2 by blast
qed

text \<open>
  C1. In \<open>avg\<close> mode, \<open>find_best_match\<close> returns the same result from an empty cache as
  from a cache that already holds exactly the averages of the tiles in their order. For a
  non-empty list of tiles whose averages have the cell's number of channels that result
  is a tile, the same position of the list on both paths; the first path leaves the cache
  filled with the averages of the tiles, the second leaves it as it is. Nothing is
  assumed about the averages being distinct.
\<close>

theorem cache_warm_or_cold_same_tile:
  assumes "cached_avgs cold = []"
    and "cached_avgs warm = map (average lib) tiles"
  shows "fst (find_best_match lib target tiles ''avg'' cold)
           = fst (find_best_match lib target tiles ''avg'' warm)
       \<and> (tiles \<noteq> [] \<and> (\<forall>t\<in>set tiles. length (average lib t) = length (average lib target)) \<longrightarrow>
           (\<exists>k<length tiles.
              fst (find_best_match lib target tiles ''avg'' cold) = Inr (Some (tiles ! k))
            \<and> fst (find_best_match lib target tiles ''avg'' warm) = Inr (Some (tiles ! k))
            \<and> cached_avgs (snd (find_best_match lib target tiles ''avg'' cold))
                = map (average lib) tiles
            \<and> cached_avgs (snd (find_best_match lib target tiles ''avg'' warm))
                = map (average lib) tiles))"
  using fbm_cold_warm_equal [OF assms] fbm_cold_warm_tile [OF _ _ assms]
  by blast

text \<open>
  Witness of \<open>cache_warm_or_cold_same_tile\<close>: the second and third tile share the
  average \<open>(255, 0, 0)\<close>, and both paths return the second.
\<close>

theorem cache_warm_or_cold_same_tile_witness:
  "fst (find_best_match flat_lib demo_cell demo_tiles ''avg'' init_state) = Inr (Some demo_red)
   \<and> fst (find_best_match flat_lib demo_cell demo_tiles ''avg''
        (init_state\<lparr>cached_avgs := [[0, 255, 0], [255, 0, 0], [255, 0, 0]]\<rparr>)) = Inr (Some demo_red)"
proof -
  have 1: "demo_tiles \<noteq> []" by (simp add: demo_tiles_def)
  have 2: "\<forall>t\<in>set demo_tiles. length (average flat_lib t) = length (average flat_lib demo_cell)"
    by (simp add: demo_defs)
  have 3: "cached_avgs init_state = []" by (simp add: init_state_def)
  have 4: "cached_avgs (init_state\<lparr>cached_avgs := [[0, 255, 0], [255, 0, 0], [255, 0, 0]]\<rparr>)
      = map (average flat_lib) demo_tiles"
    by (simp add: demo_defs)
  have cold: "fst (find_best_match flat_lib demo_cell demo_tiles ''avg'' init_state)
      = Inr (Some demo_red)"
    by (simp add: find_best_match_def avg_rgb_returns init_state_def demo_defs
        error_def asarray_pixel_def improves_def)
  from cache_warm_or_cold_same_tile [OF 3 4, of demo_cell] 1 2 obtain k where
    "fst (find_best_match flat_lib demo_cell demo_tiles ''avg'' init_state)
       = Inr (Some (demo_tiles ! k))"
    "fst (find_best_match flat_lib demo_cell demo_tiles ''avg''
        (init_state\<lparr>cached_avgs := [[0, 255, 0], [255, 0, 0], [255, 0, 0]]\<rparr>))
       = Inr (Some (demo_tiles ! k))" by blast
  with cold show ?thesis by simp
qed

subsection \<open>The dissimilarity\<close>





subsection \<open>The cache only grows\<close>

lemma fbm_cache_extends:
  "\<exists>ys. cached_avgs (snd (find_best_match lib target tiles method s)) = cached_avgs s @ ys"
proof (cases "method = ''avg'' \<and> cached_avgs s = []")
  case True
  from scan_tiles_extends [of lib "average lib target" tiles "[]" "(None, None)"]
  obtain ys where "snd (scan_tiles lib (average lib target) tiles [] (None, None)) = ys" by auto
  then show ?thesis using True
    by (auto simp: find_best_match_def avg_rgb_returns split: prod.splits sum.splits)
next
  case False
  then show ?thesis
    by (auto simp: find_best_match_def avg_rgb_returns print_def split: prod.splits sum.splits)
qed

lemma fbm_cache_kept:
  "cached_avgs s \<noteq> [] \<or> method \<noteq> ''avg'' \<Longrightarrow>
   cached_avgs (snd (find_best_match lib target tiles method s)) = cached_avgs s"
  by (auto simp: find_best_match_def avg_rgb_returns print_def split: prod.splits sum.splits)

lemma match_row_cache_extends:
  "\<exists>ys. cached_avgs (snd (match_row lib tiles method row acc s)) = cached_avgs s @ ys"
proof (induction row arbitrary: acc s)
  case Nil
  show ?case by simp
next
  case (Cons c row)
  obtain r s1 where f: "find_best_match lib c tiles method s = (r, s1)" by force
  from fbm_cache_extends [of lib c tiles "method" s] f
  obtain ys where ys: "cached_avgs s1 = cached_avgs s @ ys" by auto
  show ?case
  proof (cases r)
    case (Inl e)
    then show ?thesis using f ys by simp
  next
    case (Inr best)
    from Cons.IH [of "acc @ [best]" s1] obtain zs where
      "cached_avgs (snd (match_row lib tiles method row (acc @ [best]) s1)) = cached_avgs s1 @ zs"
      by blast
    then show ?thesis using f ys Inr by simp
  qed
qed

lemma match_grid_cache_extends:
  "\<exists>ys. cached_avgs (snd (match_grid lib tiles method grid acc s)) = cached_avgs s @ ys"
proof (induction grid arbitrary: acc s)
  case Nil
  show ?case by simp
next
  case (Cons row grid)
  obtain r s1 where f: "match_row lib tiles method row [] s = (r, s1)" by force
  from match_row_cache_extends [of lib tiles "method" row "[]" s] f
  obtain ys where ys: "cached_avgs s1 = cached_avgs s @ ys" by auto
  show ?case
  proof (cases r)
    case (Inl e)
    then show ?thesis using f ys by simp
  next
    case (Inr mr)
    from Cons.IH [of "acc @ [mr]" s1] obtain zs where
      "cached_avgs (snd (match_grid lib tiles method grid (acc @ [mr]) s1)) = cached_avgs s1 @ zs"
      by blast
    then show ?thesis using f ys Inr by simp
  qed
qed

lemma compose_cache_kept:
  "cached_avgs (snd (compose env lib im mt tile_size out_file m s)) = cached_avgs s"
  by (auto simp: compose_def save_def print_def log_event_def Let_def split: sum.splits prod.splits)

lemma mosaic_cache_extends:
  "\<exists>ys. cached_avgs (snd (mosaic env lib im tiles tile_size out_file m method s)) = cached_avgs s @ ys"
proof (cases "gridify lib im tile_size")
  case (Inl e)
  then show ?thesis by (simp add: mosaic_def)
next
  case (Inr grid)
  let ?s0 = "print ''Finding best matches...'' s"
  obtain r s1 where f: "match_grid lib tiles method grid [] ?s0 = (r, s1)" by force
  from match_grid_cache_extends [of lib tiles "method" grid "[]" ?s0] f
  obtain ys where ys: "cached_avgs s1 = cached_avgs s @ ys" by (auto simp: print_def)
  show ?thesis
  proof (cases r)
    case (Inl e)
    then show ?thesis using f ys Inr by (simp add: mosaic_def)
  next
    case mt: (Inr mt)
    show ?thesis using f ys Inr mt by (simp add: mosaic_def compose_cache_kept print_def)
  qed
qed

lemma image_open_cache_kept: "cached_avgs (snd (image_open env path s)) = cached_avgs s"
  by (simp add: image_open_def log_event_def split: option.splits)

lemma get_target_cache_kept:
  "cached_avgs (snd (get_target env lib path tile_size scale s)) = cached_avgs s"
proof -
  obtain r s1 where o: "image_open env path s = (r, s1)" by force
  with image_open_cache_kept [of env path s] have "cached_avgs s1 = cached_avgs s" by simp
  then show ?thesis using o
    by (auto simp: get_target_def Let_def split: sum.splits prod.splits)
qed

lemma load_tiles_cache_kept:
  "cached_avgs (snd (load_tiles env lib tiles_path tile_size m files acc s)) = cached_avgs s"
proof (induction files arbitrary: acc s)
  case Nil
  show ?case by simp
next
  case (Cons f files)
  obtain r s1 where o: "image_open env (path_join tiles_path f) s = (r, s1)" by force
  with image_open_cache_kept [of env "path_join tiles_path f" s]
  have c: "cached_avgs s1 = cached_avgs s" by simp
  show ?case using o c Cons.IH by (auto split: sum.splits)
qed

lemma get_tiles_cache_kept:
  "cached_avgs (snd (get_tiles env lib tiles_path tile_size m s)) = cached_avgs s"
proof -
  let ?s1 = "log_event (Listed tiles_path) (print ''Getting tiles...'' s)"
  have c: "cached_avgs ?s1 = cached_avgs s" by (simp add: log_event_def print_def)
  show ?thesis
  proof (cases "listdir env tiles_path")
    case None
    then show ?thesis using c by (simp add: get_tiles_def)
  next
    case (Some files)
    obtain r s2 where l: "load_tiles env lib tiles_path tile_size m files [] ?s1 = (r, s2)" by force
    with load_tiles_cache_kept [of env lib tiles_path tile_size m files "[]" ?s1] c
    have "cached_avgs s2 = cached_avgs s" by simp
    then show ?thesis using Some l by (auto simp: get_tiles_def print_def split: sum.splits)
  qed
qed

lemma fbm_from_cache:
  assumes "cached_avgs s \<noteq> []"
    and "\<forall>a\<in>set (cached_avgs s). length a = length (average lib target)"
  shows "\<exists>k. first_min (map (sq_dist (average lib target)) (cached_avgs s)) k
           \<and> fst (find_best_match lib target tiles ''avg'' s)
               = (if k < length tiles then Inr (Some (tiles ! k)) else Inl IndexError)"
proof -
  let ?d = "sq_dist (average lib target)"
  have 1: "\<forall>a\<in>set (cached_avgs s).
      error (asarray_pixel (average lib target)) (asarray_pixel a) = Inr (?d a)"
    using assms(2) by (simp add: error_pixel)
  from scan_cache_general [of "cached_avgs s" "average lib target" ?d "[]" "cached_avgs s"
      None tiles None, OF 1] assms(1)
  obtain k where k: "first_min (map ?d (cached_avgs s)) k"
    and r: "scan_cache (cached_avgs s) tiles (average lib target) (cached_avgs s) (None, None)
         = (if k < length tiles then Inr (Some (?d (cached_avgs s ! k)), Some (tiles ! k))
            else Inl IndexError)"
    by auto
  from r have "fst (find_best_match lib target tiles ''avg'' s)
      = (if k < length tiles then Inr (Some (tiles ! k)) else Inl IndexError)"
    using assms(1) by (simp add: find_best_match_def avg_rgb_returns)
  with k show ?thesis by blast
qed

text \<open>
  C10. No operation shortens or rewrites \<open>cached_avgs\<close>: after \<open>find_best_match\<close> and
  after \<open>mosaic\<close> the list is the old one with entries appended, \<open>get_target\<close> and
  \<open>get_tiles\<close> leave it alone, and \<open>find_best_match\<close> appends only in \<open>avg\<close> mode on
  an empty list. On a non-empty cache (of colours with the cell's channels) the \<open>avg\<close>
  result is read off the cache alone: with \<open>k\<close> the first position of the cache closest to
  the cell's average, it is \<open>tiles[k]\<close>, or IndexError when the tiles are fewer; the
  averages of the tiles passed in play no part.
\<close>

theorem cache_only_grows_and_is_trusted:
  "(\<exists>ys. cached_avgs (snd (find_best_match lib target tiles method s)) = cached_avgs s @ ys)
   \<and> (\<exists>ys. cached_avgs (snd (mosaic env lib im tiles tile_size out_file m method s))
          = cached_avgs s @ ys)
   \<and> cached_avgs (snd (get_target env lib path tile_size scale s)) = cached_avgs s
   \<and> cached_avgs (snd (get_tiles env lib path tile_size m s)) = cached_avgs s
   \<and> (cached_avgs s \<noteq> [] \<or> method \<noteq> ''avg'' \<longrightarrow>
        cached_avgs (snd (find_best_match lib target tiles method s)) = cached_avgs s)
   \<and> (cached_avgs s \<noteq> [] \<and> (\<forall>a\<in>set (cached_avgs s). length a = length (average lib target)) \<longrightarrow>
        (\<exists>k. first_min (map (sq_dist (average lib target)) (cached_avgs s)) k
           \<and> fst (find_best_match lib target tiles ''avg'' s)
               = (if k < length tiles then Inr (Some (tiles ! k)) else Inl IndexError)))"
  using fbm_cache_extends [of lib target tiles "method" s]
    mosaic_cache_extends [of env lib im tiles tile_size out_file m "method" s]
    get_target_cache_kept [of env lib path tile_size scale s]
    get_tiles_cache_kept [of env lib path tile_size m s]
    fbm_cache_kept [of s "method" lib target tiles]
    fbm_from_cache [of s lib target tiles]
  by blast

text \<open>
  Witness of \<open>cache_only_grows_and_is_trusted\<close>: the cache holds one colour, black, left
  by another list of tiles; for a black cell and the tiles white, black the answer is the
  white tile, the one at the position of the cached black.
\<close>

theorem cache_only_grows_and_is_trusted_witness:
  "fst (find_best_match flat_lib demo_black [demo_white, demo_black] ''avg'' stale_state)
     = Inr (Some demo_white)
   \<and> cached_avgs (snd (find_best_match flat_lib demo_black [demo_white, demo_black] ''avg''
        stale_state)) = [[0, 0, 0]]"
proof -
  have ne: "cached_avgs stale_state \<noteq> []" by (simp add: stale_state_def)
  have len: "\<forall>a\<in>set (cached_avgs stale_state). length a = length (average flat_lib demo_black)"
    by (simp add: stale_state_def demo_black_def demo_defs)
  from cache_only_grows_and_is_trusted [of flat_lib demo_black "[demo_white, demo_black]"
      "''avg''" stale_state] ne len
  obtain k where k: "first_min (map (sq_dist (average flat_lib demo_black))
        (cached_avgs stale_state)) k"
    and r: "fst (find_best_match flat_lib demo_black [demo_white, demo_black] ''avg'' stale_state)
      = (if k < length [demo_white, demo_black] then Inr (Some ([demo_white, demo_black] ! k))
         else Inl IndexError)"
    and c: "cached_avgs (snd (find_best_match flat_lib demo_black [demo_white, demo_black] ''avg''
        stale_state)) = cached_avgs stale_state"
    by blast
  from k have "k = 0" by (simp add: first_min_def stale_state_def)
  with r c show ?thesis by (simp add: stale_state_def)
qed

subsection \<open>The trim of the target\<close>

lemma solid_simps [simp]: "width (solid w h p) = w" "height (solid w h p) = h"
  "mode (solid w h p) = ''RGB''"
  by (simp_all add: solid_def)

lemma get_target_dims:
  assumes "decode env path = Some img" "0 < width img" "0 < height img" "0 < scale" "0 < t"
  shows "\<exists>out. get_target env lib path (t, t') scale s = (Inr out, log_event (Opened path) s)
           \<and> width out = width img * scale - 2 * ((width img * scale mod t) div 2)
           \<and> height out = height img * scale - 2 * ((height img * scale mod t) div 2)
           \<and> mode out = mode img"
proof -
  let ?w = "width img * scale" and ?h = "height img * scale"
  have w: "0 < ?w" and h: "0 < ?h" using assms by simp_all
  have wm: "0 \<le> ?w mod t" "?w mod t \<le> ?w" using w assms(5)
    by (simp_all add: zmod_le_nonneg_dividend)
  have hm: "0 \<le> ?h mod t" "?h mod t \<le> ?h" using h assms(5)
    by (simp_all add: zmod_le_nonneg_dividend)
  have 1: "\<not> ?w - ?w mod t div 2 < ?w mod t div 2" using wm by linarith
  have 2: "\<not> ?h - ?h mod t div 2 < ?h mod t div 2" using hm by linarith
  show ?thesis
    using assms w h 1 2
    by (auto simp: get_target_def image_open_def resize_def crop_def Let_def)
qed

text \<open>
  C2. The claim fails on the code: the trim removes \<open>(w mod tile) div 2\<close> pixels from each
  side, an even number in all, so an odd remainder leaves one pixel too many. A 4 by 4
  picture at scale 1 with tiles of 3 is returned 4 by 4 (no trim at all), and 4 is no
  multiple of 3.
\<close>

theorem get_target_not_multiple:
  "map_sum id dims (fst (get_target demo_env flat_lib ''target.png'' (3, 3) 1 init_state))
     = Inr (4, 4)
   \<and> (4::int) mod 3 = 1"
proof -
  have d: "decode demo_env ''target.png'' = Some (solid 4 4 [0, 0, 0])"
    by (simp add: demo_env_def)
  from get_target_dims [OF d, of 1 3 flat_lib 3 init_state]
  obtain out where "get_target demo_env flat_lib ''target.png'' (3, 3) 1 init_state
      = (Inr out, log_event (Opened ''target.png'') init_state)"
    "width out = 4" "height out = 4" by auto
  then show ?thesis by (simp add: dims_def)
qed

text \<open>
  Witness of \<open>get_target_not_multiple\<close>: the width returned there leaves the
  remainder 1 on division by the tile width.
\<close>

theorem get_target_not_multiple_witness:
  "map_sum id (\<lambda>im. width im mod 3)
     (fst (get_target demo_env flat_lib ''target.png'' (3, 3) 1 init_state)) = Inr 1"
  using get_target_not_multiple
  by (cases "fst (get_target demo_env flat_lib ''target.png'' (3, 3) 1 init_state)")
    (auto simp: dims_def)

subsection \<open>The crop box of a tile\<close>

lemma tile_box_dims:
  "tile_box tile = (l, u, r, b) \<Longrightarrow>
   r - l = min (width tile) (height tile) + (width tile - min (width tile) (height tile)) mod 2
   \<and> b - u = min (width tile) (height tile) + (height tile - min (width tile) (height tile)) mod 2"
  by (auto simp: tile_box_def Let_def min_def) presburger+

text \<open>
  C5. The claim fails on the code: \<open>process_tile\<close> removes \<open>(w - min_dim) div 2\<close> columns
  from each side, so when width and height differ by an odd number the box is one pixel
  longer than \<open>min_dim\<close> on the long axis. For a picture 5 wide and 2 high the box handed
  to \<open>resize\<close> is \<open>(1, 0, 4, 2)\<close>: 3 by 2, not 2 by 2.
\<close>

theorem process_tile_box_not_square:
  "tile_box (solid 5 2 [0, 0, 0]) = (1, 0, 4, 2)
   \<and> process_tile flat_lib (solid 5 2 [0, 0, 0]) (3, 3)
       = resize flat_lib (solid 5 2 [0, 0, 0]) (3, 3) (Some (1, 0, 4, 2))
   \<and> min (width (solid 5 2 [0, 0, 0])) (height (solid 5 2 [0, 0, 0])) = 2"
  by (simp add: tile_box_def process_tile_def)

subsection \<open>The size of the output\<close>

lemma paste_dims:
  "paste lib out tile xy = Inr out' \<Longrightarrow>
   width out' = width out \<and> height out' = height out \<and> mode out' = mode out"
  by (auto simp: paste_def split: option.splits)

lemma paste_row_dims:
  "paste_row lib tile_size i j row out = Inr out' \<Longrightarrow>
   width out' = width out \<and> height out' = height out \<and> mode out' = mode out"
proof (induction row arbitrary: j out)
  case Nil
  then show ?case by simp
next
  case (Cons t row)
  then obtain o1 where 1: "paste lib out t (j * fst tile_size, i * snd tile_size) = Inr o1"
    and 2: "paste_row lib tile_size i (j + 1) row o1 = Inr out'"
    by (auto split: sum.splits)
  from Cons.IH [OF 2] paste_dims [OF 1] show ?case by simp
qed

lemma paste_grid_dims:
  "paste_grid lib tile_size i rows out = Inr out' \<Longrightarrow>
   width out' = width out \<and> height out' = height out \<and> mode out' = mode out"
proof (induction rows arbitrary: i out)
  case Nil
  then show ?case by simp
next
  case (Cons row rows)
  then obtain o1 where 1: "paste_row lib tile_size i 0 row out = Inr o1"
    and 2: "paste_grid lib tile_size (i + 1) rows o1 = Inr out'"
    by (auto split: sum.splits)
  from Cons.IH [OF 2] paste_row_dims [OF 1] show ?case by simp
qed

lemma paste_row_some:
  "None \<notin> set row \<Longrightarrow> \<exists>out'. paste_row lib tile_size i j row out = Inr out'"
proof (induction row arbitrary: j out)
  case Nil
  show ?case by simp
next
  case (Cons t row)
  then obtain x where t: "t = Some x" by (cases t) auto
  from Cons show ?case by (simp add: t paste_def)
qed

lemma paste_grid_some:
  "\<forall>row\<in>set rows. None \<notin> set row \<Longrightarrow> \<exists>out'. paste_grid lib tile_size i rows out = Inr out'"
proof (induction rows arbitrary: i out)
  case Nil
  show ?case by simp
next
  case (Cons row rows)
  from paste_row_some [of row lib tile_size i 0 out] Cons.prems
  obtain o1 where 1: "paste_row lib tile_size i 0 row out = Inr o1" by auto
  from Cons.IH [of "i + 1" o1] Cons.prems
  obtain o2 where "paste_grid lib tile_size (i + 1) rows o1 = Inr o2" by auto
  with 1 show ?case by simp
qed

text \<open>
  C3. What holds of the compositor: it allocates the output with the size of the prepared
  target, \<open>Image.new(mode, image.size)\<close>, and pasting keeps that size: when every cell has
  a tile and the file can be written, it saves one picture of exactly the target's width
  and height. With positive tile sides the grid's extent, columns times tile width by rows
  times tile height, is at most that size, and equals it exactly when the tile sides
  divide the target's.
\<close>

theorem compose_output_has_target_size:
  assumes "0 \<le> width im" and "0 \<le> height im" and "writable env out_file"
    and "\<forall>row\<in>set mosaic_tiles. None \<notin> set row"
  shows "(\<exists>out. compose env lib im mosaic_tiles tile_size out_file m s
             = (Inr (), print ''Done.'' (log_event (Saved out_file out) (print ''Creating mosaic...'' s)))
           \<and> width out = width im \<and> height out = height im \<and> mode out = m)
         \<and> (0 < fst tile_size \<and> 0 < snd tile_size \<longrightarrow>
              width im div fst tile_size * fst tile_size \<le> width im
            \<and> height im div snd tile_size * snd tile_size \<le> height im
            \<and> ((width im div fst tile_size * fst tile_size,
                 height im div snd tile_size * snd tile_size) = (width im, height im)
               \<longleftrightarrow> fst tile_size dvd width im \<and> snd tile_size dvd height im))"
proof -
  obtain o0 where o0: "new_image lib m (width im, height im) = Inr o0"
    and d0: "width o0 = width im" "height o0 = height im" "mode o0 = m"
    using assms(1,2) by (simp add: new_image_def)
  from paste_grid_some [OF assms(4), of lib tile_size 0 o0]
  obtain out where out: "paste_grid lib tile_size 0 mosaic_tiles o0 = Inr out" by blast
  from paste_grid_dims [OF out] d0
  have d: "width out = width im" "height out = height im" "mode out = m" by simp_all
  have "compose env lib im mosaic_tiles tile_size out_file m s
      = (Inr (), print ''Done.'' (log_event (Saved out_file out) (print ''Creating mosaic...'' s)))"
    using o0 out assms(3) by (simp add: compose_def save_def)
  with d have 1: "\<exists>out. compose env lib im mosaic_tiles tile_size out_file m s
             = (Inr (), print ''Done.'' (log_event (Saved out_file out) (print ''Creating mosaic...'' s)))
           \<and> width out = width im \<and> height out = height im \<and> mode out = m" by blast
  have 2: "w div t * t \<le> w \<and> (w div t * t = w \<longleftrightarrow> t dvd w)" if "0 < t" for w t :: int
  proof -
    have "w div t * t + w mod t = w" by simp
    moreover have "0 \<le> w mod t" using that by simp
    moreover have "t dvd w \<longleftrightarrow> w mod t = 0" by (simp add: dvd_eq_mod_eq_0)
    ultimately show ?thesis by linarith
  qed
  from 1 2 [of "fst tile_size" "width im"] 2 [of "snd tile_size" "height im"]
  show ?thesis by auto
qed

text \<open>
  Witness of \<open>compose_output_has_target_size\<close>: for a target 4 by 4 and one cell
  matched to a tile of side 3, the picture saved is 4 by 4.
\<close>

theorem compose_output_has_target_size_witness:
  "map dims (saved (snd (compose demo_env flat_lib (solid 4 4 [0, 0, 0])
       [[Some (solid 3 3 [0, 0, 0])]] (3, 3) ''out.png'' ''RGB'' init_state))) = [(4, 4)]"
proof -
  have w: "writable demo_env ''out.png''" by (simp add: demo_env_def)
  have a: "\<forall>row\<in>set [[Some (solid 3 3 [0, 0, 0])]]. None \<notin> set row" by simp
  from compose_output_has_target_size [of "solid 4 4 [0, 0, 0]" demo_env "''out.png''"
      "[[Some (solid 3 3 [0, 0, 0])]]" flat_lib "(3, 3)" "''RGB''" init_state, OF _ _ w a]
  obtain out where "compose demo_env flat_lib (solid 4 4 [0, 0, 0])
       [[Some (solid 3 3 [0, 0, 0])]] (3, 3) ''out.png'' ''RGB'' init_state
       = (Inr (), print ''Done.'' (log_event (Saved ''out.png'' out)
            (print ''Creating mosaic...'' init_state)))"
    "width out = 4" "height out = 4" by auto
  then show ?thesis
    by (simp add: saved_def dims_def print_def log_event_def init_state_def)
qed

text \<open>
  C3 as the specification words it fails there: the grid is one row of one cell, so columns
  times tile width by rows times tile height is 3 by 3, and the picture saved is not.
\<close>

theorem compose_output_not_grid_size:
  "map dims (saved (snd (compose demo_env flat_lib (solid 4 4 [0, 0, 0])
       [[Some (solid 3 3 [0, 0, 0])]] (3, 3) ''out.png'' ''RGB'' init_state)))
     \<noteq> [(int (length (hd [[Some (solid 3 3 [0, 0, 0])]])) * 3,
          int (length [[Some (solid 3 3 [0, 0, 0])]]) * 3)]"
proof -
  have w: "writable demo_env ''out.png''" by (simp add: demo_env_def)
  have a: "\<forall>row\<in>set [[Some (solid 3 3 [0, 0, 0])]]. None \<notin> set row" by simp
  have p: "paste_grid flat_lib (3, 3) 0 [[Some (solid 3 3 [0, 0, 0])]] o0 = Inr out
      \<Longrightarrow> width out = width o0" for o0 out
    using paste_grid_dims by blast
  obtain o0 where o0: "new_image flat_lib ''RGB'' (4, 4) = Inr o0" and d0: "width o0 = 4"
    by (simp add: new_image_def)
  from paste_grid_some [OF a, of flat_lib "(3, 3)" 0 o0]
  obtain out where out: "paste_grid flat_lib (3, 3) 0 [[Some (solid 3 3 [0, 0, 0])]] o0 = Inr out"
    by blast
  from p [OF out] d0 have "width out = 4" by simp
  moreover have "compose demo_env flat_lib (solid 4 4 [0, 0, 0])
       [[Some (solid 3 3 [0, 0, 0])]] (3, 3) ''out.png'' ''RGB'' init_state
       = (Inr (), print ''Done.'' (log_event (Saved ''out.png'' out)
            (print ''Creating mosaic...'' init_state)))"
    using o0 out w by (simp add: compose_def save_def)
  ultimately show ?thesis
    by (simp add: saved_def dims_def print_def log_event_def init_state_def)
qed

subsection \<open>The checks of the entry point\<close>

lemma get_target_state:
  "get_target env lib path tile_size scale s = (Inr target, s1) \<Longrightarrow>
   s1 = log_event (Opened path) s"
  by (auto simp: get_target_def image_open_def Let_def split: option.splits sum.splits if_splits)

text \<open>
  C8. On a command line of six arguments whose tile size and scale are integers and whose
  method is neither \<open>avg\<close> nor \<open>diff\<close>, \<open>main\<close> prints the unknown-method message and
  exits with nothing else done: the trace of file operations is empty, so the target was
  not opened and no tile was listed or loaded. (\<open>find_best_match\<close> has the same guard of
  its own, which \<open>main\<close> therefore never reaches.)
\<close>

theorem unknown_method_exits_first:
  assumes "length argv = 7"
    and "parse_int env (argv ! 4) = Some sz"
    and "parse_int env (argv ! 5) = Some scale"
    and "argv ! 6 \<noteq> ''avg''" and "argv ! 6 \<noteq> ''diff''"
  shows "main env lib argv
           = (Inl SystemExit,
              \<lparr>cached_avgs = [], stdout = [unknown_method (argv ! 6)], trace = []\<rparr>)
         \<and> find_best_match lib target tiles (argv ! 6) s
           = (Inl SystemExit, print ''Unknown method. Exiting...'' s)"
  using assms by (simp add: main_def find_best_match_def print_def init_state_def)

text \<open>Witness of \<open>unknown_method_exits_first\<close>: the method \<open>median\<close>.\<close>

theorem unknown_method_exits_first_witness:
  "main demo_env flat_lib (demo_argv ''3'' ''median'')
     = (Inl SystemExit,
        \<lparr>cached_avgs = [], stdout = [unknown_method ''median''], trace = []\<rparr>)"
proof -
  have 1: "length (demo_argv ''3'' ''median'') = 7" by (simp add: demo_argv_def)
  have 2: "parse_int demo_env (demo_argv ''3'' ''median'' ! 4) = Some 3"
    by (simp add: demo_argv_def demo_env_def)
  have 3: "parse_int demo_env (demo_argv ''3'' ''median'' ! 5) = Some 1"
    by (simp add: demo_argv_def demo_env_def)
  have 4: "demo_argv ''3'' ''median'' ! 6 \<noteq> ''avg''" by (simp add: demo_argv_def)
  have 5: "demo_argv ''3'' ''median'' ! 6 \<noteq> ''diff''" by (simp add: demo_argv_def)
  have 6: "demo_argv ''3'' ''median'' ! 6 = ''median''" by (simp add: demo_argv_def)
  from unknown_method_exits_first [OF 1 2 3 4 5, of flat_lib] show ?thesis
    by (simp only: 6)
qed

text \<open>
  C7. On a run that reaches the check (six arguments, integer tile size and scale, a known
  method, and \<open>get_target\<close> returning the prepared target), a tile size above the smaller
  side of the target makes \<open>main\<close> print "Tiles cannot be larger than the image" and exit.
  The only file operation made is the opening of the target: the tile directory is not
  listed, no tile is opened and nothing is matched or saved.
\<close>

theorem oversized_tiles_exit_before_loading:
  assumes "length argv = 7"
    and "parse_int env (argv ! 4) = Some sz"
    and "parse_int env (argv ! 5) = Some scale"
    and "argv ! 6 = ''avg'' \<or> argv ! 6 = ''diff''"
    and "get_target env lib (argv ! 1) (sz, sz) (if scale < 1 then 1 else scale) init_state
           = (Inr target, s1)"
    and "sz > min (width target) (height target)"
  shows "main env lib argv
           = (Inl SystemExit,
              \<lparr>cached_avgs = [], stdout = [''Tiles cannot be larger than the image''],
               trace = [Opened (argv ! 1)]\<rparr>)"
proof -
  from get_target_state [OF assms(5)] have s1: "s1 = log_event (Opened (argv ! 1)) init_state" .
  have "main env lib argv = (Inl SystemExit, print ''Tiles cannot be larger than the image'' s1)"
    using assms by (auto simp: main_def Let_def)
  then show ?thesis by (simp add: s1 print_def log_event_def init_state_def)
qed

text \<open>
  Witness of \<open>oversized_tiles_exit_before_loading\<close>: tiles of 5 on the 4 by 4 target
  (which the trim has reduced to nothing).
\<close>

theorem oversized_tiles_exit_before_loading_witness:
  "main demo_env flat_lib (demo_argv ''5'' ''avg'')
     = (Inl SystemExit,
        \<lparr>cached_avgs = [], stdout = [''Tiles cannot be larger than the image''],
         trace = [Opened ''target.png'']\<rparr>)"
proof -
  have 1: "length (demo_argv ''5'' ''avg'') = 7" by (simp add: demo_argv_def)
  have 2: "parse_int demo_env (demo_argv ''5'' ''avg'' ! 4) = Some 5"
    by (simp add: demo_argv_def demo_env_def)
  have 3: "parse_int demo_env (demo_argv ''5'' ''avg'' ! 5) = Some 1"
    by (simp add: demo_argv_def demo_env_def)
  have 4: "demo_argv ''5'' ''avg'' ! 6 = ''avg'' \<or> demo_argv ''5'' ''avg'' ! 6 = ''diff''"
    by (simp add: demo_argv_def)
  have d: "decode demo_env ''target.png'' = Some (solid 4 4 [0, 0, 0])"
    by (simp add: demo_env_def)
  from get_target_dims [OF d, of 1 5 flat_lib 5 init_state]
  obtain out where g: "get_target demo_env flat_lib ''target.png'' (5, 5) 1 init_state
      = (Inr out, log_event (Opened ''target.png'') init_state)"
    and w: "width out = 0" "height out = 0" by auto
  have 5: "get_target demo_env flat_lib (demo_argv ''5'' ''avg'' ! 1) (5, 5)
      (if (1::int) < 1 then 1 else 1) init_state
      = (Inr out, log_event (Opened ''target.png'') init_state)"
    using g by (simp add: demo_argv_def)
  have 6: "5 > min (width out) (height out)" using w by simp
  from oversized_tiles_exit_before_loading [OF 1 2 3 4 5 6] show ?thesis
    by (simp add: demo_argv_def)
qed

subsection \<open>A run without tiles\<close>

lemma collect_map:
  "\<forall>x\<in>set xs. f x = Inr (g x) \<Longrightarrow> collect (map f xs) = Inr (map g xs)"
  by (induction xs) auto

lemma gridify_shape:
  assumes "0 < w" and "0 < h"
  shows "\<exists>grid. gridify lib im (w, h) = Inr grid
           \<and> length grid = nat (height im div h)
           \<and> (\<forall>row\<in>set grid. length row = nat (width im div w))"
proof -
  let ?cell = "\<lambda>i j. \<lparr>width = (j + 1) * w - j * w, height = (i + 1) * h - i * h, mode = mode im,
      data = raster ((j + 1) * w - j * w) ((i + 1) * h - i * h)
        (\<lambda>x y. pixel_at lib im (j * w + x) (i * h + y))\<rparr>"
  have c: "crop lib im (j * w, i * h, (j + 1) * w, (i + 1) * h) = Inr (?cell i j)" for i j
    using assms by (simp add: crop_def distrib_right)
  have row: "collect (map (\<lambda>j. crop lib im (j * w, i * h, (j + 1) * w, (i + 1) * h)) js)
      = Inr (map (?cell i) js)" for i js
    by (rule collect_map) (simp add: c)
  have "gridify lib im (w, h)
      = Inr (map (\<lambda>i. map (?cell i) [0..width im div w - 1]) [0..height im div h - 1])"
    using assms by (simp add: gridify_def Let_def row collect_map)
  then show ?thesis by auto
qed

lemma fbm_no_tiles:
  "method = ''diff'' \<or> method = ''avg'' \<and> cached_avgs s = [] \<Longrightarrow>
   find_best_match lib target [] method s = (Inr None, s)"
  by (auto simp: find_best_match_def avg_rgb_returns)

lemma match_row_no_tiles:
  "method = ''diff'' \<or> method = ''avg'' \<and> cached_avgs s = [] \<Longrightarrow>
   match_row lib [] method row acc s = (Inr (acc @ replicate (length row) None), s)"
proof (induction row arbitrary: acc)
  case Nil
  show ?case by simp
next
  case (Cons c row)
  from Cons.IH [OF Cons.prems, of "acc @ [None]"] fbm_no_tiles [OF Cons.prems, of lib c]
  show ?case by (simp add: replicate_app_Cons_same)
qed

lemma match_grid_no_tiles:
  "method = ''diff'' \<or> method = ''avg'' \<and> cached_avgs s = [] \<Longrightarrow>
   match_grid lib [] method grid acc s
     = (Inr (acc @ map (\<lambda>row. replicate (length row) None) grid), s)"
proof (induction grid arbitrary: acc)
  case Nil
  show ?case by simp
next
  case (Cons row grid)
  from Cons.IH [OF Cons.prems, of "acc @ [replicate (length row) None]"]
    match_row_no_tiles [OF Cons.prems, of lib row "[]"]
  show ?case by simp
qed

lemma mosaic_no_tiles:
  assumes "method = ''diff'' \<or> method = ''avg'' \<and> cached_avgs s = []"
    and "0 < sz" and "sz \<le> width im" and "sz \<le> height im"
  shows "mosaic env lib im [] (sz, sz) out_file m method s
           = (Inl (ValueError ''cannot determine region size; use 4-item box''),
              print ''Creating mosaic...'' (print ''Done.'' (print ''Finding best matches...'' s)))"
proof -
  from gridify_shape [OF assms(2,2), of lib im] obtain grid where
    g: "gridify lib im (sz, sz) = Inr grid"
    and rows: "length grid = nat (height im div sz)"
    and cols: "\<forall>row\<in>set grid. length row = nat (width im div sz)" by blast
  have "0 < height im div sz" "0 < width im div sz"
    using assms(2-4) by (simp_all add: pos_imp_zdiv_pos_iff)
  with rows obtain r0 rest where gr: "grid = r0 # rest" by (cases grid) auto
  with cols \<open>0 < width im div sz\<close> obtain c0 cs where r0: "r0 = c0 # cs" by (cases r0) auto
  let ?s0 = "print ''Finding best matches...'' s"
  have a: "method = ''diff'' \<or> method = ''avg'' \<and> cached_avgs ?s0 = []"
    using assms(1) by (simp add: print_def)
  have mg: "match_grid lib [] method grid [] ?s0
      = (Inr ((None # replicate (length cs) None) # map (\<lambda>row. replicate (length row) None) rest), ?s0)"
    using match_grid_no_tiles [OF a, of lib grid "[]"] by (simp add: gr r0)
  have ni: "new_image lib m (width im, height im)
      = Inr \<lparr>width = width im, height = height im, mode = m,
             data = raster (width im) (height im) (\<lambda>x y. black lib m)\<rparr>"
    using assms(2-4) by (simp add: new_image_def)
  show ?thesis
    by (simp add: mosaic_def g mg compose_def ni paste_def Let_def)
qed

lemma get_tiles_empty:
  "listdir env tiles_path = Some [] \<Longrightarrow>
   get_tiles env lib tiles_path tile_size m s
     = (Inr [], print ''Done.'' (log_event (Listed tiles_path) (print ''Getting tiles...'' s)))"
  by (simp add: get_tiles_def)

text \<open>
  C9. With no tiles, \<open>find_best_match\<close> returns \<open>None\<close> in \<open>diff\<close> mode, and in \<open>avg\<close>
  mode when the cache is empty, and leaves the state as it was. A run of \<open>main\<close> on an
  empty tile directory (six arguments, integer positive tile size no larger than the
  prepared target, known method) then reports no configuration error: it lists the
  directory, matches every cell to \<open>None\<close>, announces the composition and fails in
  \<open>paste\<close> with ValueError, nothing being saved.
\<close>

theorem no_tiles_fail_at_paste:
  "find_best_match lib target [] ''diff'' s = (Inr None, s)
   \<and> (cached_avgs s = [] \<longrightarrow> find_best_match lib target [] ''avg'' s = (Inr None, s))
   \<and> (length argv = 7
        \<and> parse_int env (argv ! 4) = Some sz \<and> parse_int env (argv ! 5) = Some scale
        \<and> (argv ! 6 = ''avg'' \<or> argv ! 6 = ''diff'')
        \<and> get_target env lib (argv ! 1) (sz, sz) (if scale < 1 then 1 else scale) init_state
             = (Inr prepared, s1)
        \<and> 0 < sz \<and> sz \<le> min (width prepared) (height prepared)
        \<and> listdir env (argv ! 2) = Some []
      \<longrightarrow> main env lib argv
            = (Inl (ValueError ''cannot determine region size; use 4-item box''),
               \<lparr>cached_avgs = [],
                stdout = [''Getting tiles...'', ''Done.'', ''Finding best matches...'', ''Done.'',
                          ''Creating mosaic...''],
                trace = [Opened (argv ! 1), Listed (argv ! 2)]\<rparr>))"
proof (intro conjI impI)
  show "find_best_match lib target [] ''diff'' s = (Inr None, s)"
    by (simp add: fbm_no_tiles)
  show "find_best_match lib target [] ''avg'' s = (Inr None, s)" if "cached_avgs s = []"
    using that by (simp add: fbm_no_tiles)
next
  assume a: "length argv = 7
        \<and> parse_int env (argv ! 4) = Some sz \<and> parse_int env (argv ! 5) = Some scale
        \<and> (argv ! 6 = ''avg'' \<or> argv ! 6 = ''diff'')
        \<and> get_target env lib (argv ! 1) (sz, sz) (if scale < 1 then 1 else scale) init_state
             = (Inr prepared, s1)
        \<and> 0 < sz \<and> sz \<le> min (width prepared) (height prepared)
        \<and> listdir env (argv ! 2) = Some []"
  then have gt: "get_target env lib (argv ! 1) (sz, sz) (if scale < 1 then 1 else scale) init_state
             = (Inr prepared, s1)" by simp
  from get_target_state [OF gt] have s1: "s1 = log_event (Opened (argv ! 1)) init_state" .
  let ?s2 = "print ''Done.'' (log_event (Listed (argv ! 2)) (print ''Getting tiles...'' s1))"
  have gtl: "get_tiles env lib (argv ! 2) (sz, sz) (mode prepared) s1 = (Inr [], ?s2)"
    using a by (simp add: get_tiles_empty)
  have c: "argv ! 6 = ''diff'' \<or> argv ! 6 = ''avg'' \<and> cached_avgs ?s2 = []"
    using a by (auto simp: s1 print_def log_event_def init_state_def)
  have mo: "mosaic env lib prepared [] (sz, sz) (argv ! 3) (mode prepared) (argv ! 6) ?s2
      = (Inl (ValueError ''cannot determine region size; use 4-item box''),
         print ''Creating mosaic...'' (print ''Done.'' (print ''Finding best matches...'' ?s2)))"
    using a by (intro mosaic_no_tiles [OF c]) simp_all
  have "main env lib argv
      = (Inl (ValueError ''cannot determine region size; use 4-item box''),
         print ''Creating mosaic...'' (print ''Done.'' (print ''Finding best matches...'' ?s2)))"
    using a gtl mo by (auto simp: main_def Let_def)
  then show "main env lib argv
            = (Inl (ValueError ''cannot determine region size; use 4-item box''),
               \<lparr>cached_avgs = [],
                stdout = [''Getting tiles...'', ''Done.'', ''Finding best matches...'', ''Done.'',
                          ''Creating mosaic...''],
                trace = [Opened (argv ! 1), Listed (argv ! 2)]\<rparr>)"
    by (simp add: s1 print_def log_event_def init_state_def)
qed

text \<open>
  Witness of \<open>no_tiles_fail_at_paste\<close>: tiles of 3 on the 4 by 4 target, the directory
  \<open>tiles\<close> being empty.
\<close>

theorem no_tiles_fail_at_paste_witness:
  "main demo_env flat_lib (demo_argv ''3'' ''avg'')
     = (Inl (ValueError ''cannot determine region size; use 4-item box''),
        \<lparr>cached_avgs = [],
         stdout = [''Getting tiles...'', ''Done.'', ''Finding best matches...'', ''Done.'',
                   ''Creating mosaic...''],
         trace = [Opened ''target.png'', Listed ''tiles'']\<rparr>)"
proof -
  have d: "decode demo_env ''target.png'' = Some (solid 4 4 [0, 0, 0])"
    by (simp add: demo_env_def)
  from get_target_dims [OF d, of 1 3 flat_lib 3 init_state]
  obtain out where g: "get_target demo_env flat_lib ''target.png'' (3, 3) 1 init_state
      = (Inr out, log_event (Opened ''target.png'') init_state)"
    and w: "width out = 4" "height out = 4" by auto
  have h: "length (demo_argv ''3'' ''avg'') = 7
        \<and> parse_int demo_env (demo_argv ''3'' ''avg'' ! 4) = Some 3
        \<and> parse_int demo_env (demo_argv ''3'' ''avg'' ! 5) = Some 1
        \<and> (demo_argv ''3'' ''avg'' ! 6 = ''avg'' \<or> demo_argv ''3'' ''avg'' ! 6 = ''diff'')
        \<and> get_target demo_env flat_lib (demo_argv ''3'' ''avg'' ! 1) (3, 3)
             (if (1::int) < 1 then 1 else 1) init_state
             = (Inr out, log_event (Opened ''target.png'') init_state)
        \<and> (0::int) < 3 \<and> 3 \<le> min (width out) (height out)
        \<and> listdir demo_env (demo_argv ''3'' ''avg'' ! 2) = Some []"
    using g w by (simp add: demo_argv_def demo_env_def)
  from no_tiles_fail_at_paste [of flat_lib _ _ "demo_argv ''3'' ''avg''" demo_env 3 1 out
      "log_event (Opened ''target.png'') init_state"] h
  show ?thesis by (simp add: demo_argv_def)
qed

end
